theory Spec2Isabelle
  imports Main "HOL-Library.Extended_Nat"
begin

section \<open>The history tracker of src/composables/useRefHistory.ts\<close>

text \<open>
  The composable keeps, for one observable cell, a list of past values (\<open>history\<close>,
  newest first) and a list of undone values (\<open>future\<close>, newest first). Its code is four
  callbacks over shared variables: the handler of \<open>watch(source, ...)\<close>, \<open>undo\<close>, \<open>redo\<close>
  and the body of \<open>watchEffect\<close>. Each callback is a function from the state before to
  the state after. What the source reads from outside is a parameter: \<open>Date.now()\<close> is
  \<open>now\<close>, \<open>toValue(capacity)\<close> is \<open>cap\<close>.

  Values of the cell are primitive values that \<open>JSON.parse(JSON.stringify(v))\<close> gives
  back unchanged (so neither \<open>undefined\<close> nor \<open>NaN\<close> nor \<open>-0\<close>): Vue compares the old and
  the new value of a ref with \<open>Object.is\<close>, which on such values is equality. A capacity
  is a non-negative whole number or \<open>Infinity\<close> (the default), an \<open>enat\<close>.
\<close>

subsection \<open>Data\<close>

text \<open>\<open>interface HistoryRecord { value: T; timestamp: number }\<close>\<close>

record 'a HistoryRecord =
  val :: 'a
  timestamp :: int

text \<open>
  The variables the callbacks share: the cell \<open>source.value\<close>, the refs \<open>history\<close>
  and \<open>future\<close>, and the closure variables \<open>doingUndo\<close>, \<open>doingRedo\<close>, \<open>lastChanged\<close>.
  The field \<open>effectTracksHistory\<close> is Vue's bookkeeping: whether the effect of line
  111, at its last run, read the length of the array that \<open>history.value\<close> holds now.
  Only then does Vue run the effect again after a change of that array.
\<close>

record 'a tracker =
  source :: 'a
  history :: "'a HistoryRecord list"
  future :: "'a HistoryRecord list"
  doingUndo :: bool
  doingRedo :: bool
  lastChanged :: int
  effectTracksHistory :: bool

subsection \<open>Helpers\<close>

text \<open>\<open>function clone(value) { return JSON.parse(JSON.stringify(value)) }\<close>: a structural copy.\<close>

definition clone :: "'v \<Rightarrow> 'v" where
  "clone v = v"

text \<open>\<open>xs.slice(0, cap)\<close> for a capacity that is a whole number or \<open>Infinity\<close>.\<close>

definition slice0 :: "enat \<Rightarrow> 'b list \<Rightarrow> 'b list" where
  "slice0 cap xs = (case cap of enat n \<Rightarrow> take n xs | \<infinity> \<Rightarrow> xs)"

subsection \<open>The callbacks\<close>

text \<open>
  Lines 35 to 65, the handler given to \<open>watch(source, (newVal, oldValue) => ...)\<close>:
  return at once while undoing or redoing; otherwise empty \<open>future\<close>, return if the
  capacity is 0, \<open>pop\<close> the last record if the capacity equals the length, \<open>unshift\<close>
  the record of the old value stamped \<open>lastChanged\<close>, and set \<open>lastChanged\<close>.
\<close>

definition watch_handler :: "enat \<Rightarrow> int \<Rightarrow> 'a \<Rightarrow> 'a \<Rightarrow> 'a tracker \<Rightarrow> 'a tracker" where
  "watch_handler cap now newVal oldValue s =
     (if doingUndo s \<or> doingRedo s then s
      else
        let s1 = s\<lparr>future := []\<rparr> in
        if cap = 0 then s1
        else
          let s2 = (if cap = enat (length (history s1))
                    then s1\<lparr>history := butlast (history s1)\<rparr> else s1);
              s3 = s2\<lparr>history :=
                        clone \<lparr>val = oldValue, timestamp = lastChanged s2\<rparr> # history s2\<rparr>
          in s3\<lparr>lastChanged := now\<rparr>)"

text \<open>
  Lines 68 to 90, \<open>undo\<close>, up to the call of \<open>nextTick\<close>: \<open>shift\<close> gives the first
  record, or nothing on an empty list.
\<close>

definition undo :: "int \<Rightarrow> 'a tracker \<Rightarrow> 'a tracker" where
  "undo now s =
     (let s1 = s\<lparr>doingUndo := True\<rparr> in
      case history s1 of
        [] \<Rightarrow> s1
      | entry # rest \<Rightarrow>
          let s2 = s1\<lparr>history := rest\<rparr>;
              s3 = s2\<lparr>future := clone \<lparr>val = source s2, timestamp = now\<rparr> # future s2\<rparr>
          in s3\<lparr>source := clone (val entry)\<rparr>)"

text \<open>The callback \<open>undo\<close> gives to \<open>nextTick\<close>: \<open>() => (doingUndo = false)\<close>.\<close>

definition undo_tick :: "'a tracker \<Rightarrow> 'a tracker" where
  "undo_tick s = s\<lparr>doingUndo := False\<rparr>"

text \<open>Lines 93 to 108, \<open>redo\<close>, up to the call of \<open>nextTick\<close>.\<close>

definition redo :: "int \<Rightarrow> 'a tracker \<Rightarrow> 'a tracker" where
  "redo now s =
     (let s1 = s\<lparr>doingRedo := True\<rparr> in
      case future s1 of
        [] \<Rightarrow> s1
      | entry # rest \<Rightarrow>
          let s2 = s1\<lparr>future := rest\<rparr>;
              s3 = s2\<lparr>history := clone \<lparr>val = source s2, timestamp = now\<rparr> # history s2\<rparr>
          in s3\<lparr>source := clone (val entry)\<rparr>)"

text \<open>The callback \<open>redo\<close> gives to \<open>nextTick\<close>: \<open>() => { doingRedo = false }\<close>.\<close>

definition redo_tick :: "'a tracker \<Rightarrow> 'a tracker" where
  "redo_tick s = s\<lparr>doingRedo := False\<rparr>"

text \<open>Lines 111 to 118, the body of \<open>watchEffect\<close>.\<close>

definition capacity_effect :: "enat \<Rightarrow> 'a tracker \<Rightarrow> 'a tracker" where
  "capacity_effect cap s =
     (if enat (length (history s)) > cap
      then s\<lparr>history := slice0 cap (history s)\<rparr> else s)"

text \<open>
  One run of the effect by Vue. The body reads \<open>history.value.length\<close> of the array held
  at that moment. If the body then stores a new array (line 116), the effect has read
  the old one: pushes to and shifts from the new array do not run it again, until a
  change of the capacity does. The effect is not run again by its own write.
\<close>

definition run_effect :: "enat \<Rightarrow> 'a tracker \<Rightarrow> 'a tracker" where
  "run_effect cap s =
     (capacity_effect cap s)\<lparr>effectTracksHistory := \<not> enat (length (history s)) > cap\<rparr>"

text \<open>
  Lines 7 to 32 and the first run of \<open>watchEffect\<close>, which Vue makes when the effect is
  created: the tracker \<open>useRefHistory(ref(v), cap)\<close> built at time \<open>now\<close>.
\<close>

definition useRefHistory :: "'a \<Rightarrow> enat \<Rightarrow> int \<Rightarrow> 'a tracker" where
  "useRefHistory v cap now =
     run_effect cap
       \<lparr>source = v, history = [], future = [],
        doingUndo = False, doingRedo = False, lastChanged = now,
        effectTracksHistory = False\<rparr>"

subsection \<open>Vue's scheduling of the callbacks\<close>

text \<open>
  A write to \<open>source.value\<close> that changes the value queues the watcher's job. A \<open>pop\<close>,
  \<open>shift\<close> or \<open>unshift\<close> on the array of \<open>history\<close> queues the effect's job if the
  effect read the length of that array at its last run. The queue is run at the next
  tick, before the callbacks given to \<open>nextTick\<close>. The watcher remembers the value it saw
  last, which at a tick is the cell's value at the tick before.
  \<open>flush_jobs cap now prev s\<close> runs the queued jobs on \<open>s\<close>, where \<open>prev\<close> is the state at
  the last tick: the handler if the cell changed, then the effect if it tracks the
  array and the array changed. (The handler can run with the history equal before and
  after, when it pops and unshifts an equal record at full capacity; the effect would
  change nothing then, see \<open>run_effect_within\<close> below.) After \<open>undo\<close> or \<open>redo\<close> the
  effect's job is queued before the watcher's; the handler then returns at line 38, so
  the order of the two jobs makes no difference.
\<close>

definition flush_jobs :: "enat \<Rightarrow> int \<Rightarrow> 'a tracker \<Rightarrow> 'a tracker \<Rightarrow> 'a tracker" where
  "flush_jobs cap now prev s =
     (let s1 = (if source s \<noteq> source prev
                then watch_handler cap now (source s) (source prev) s else s)
      in if effectTracksHistory s1 \<and> history s1 \<noteq> history prev
         then run_effect cap s1 else s1)"

text \<open>\<open>source.value = v; await nextTick()\<close> by the caller.\<close>

definition assign :: "enat \<Rightarrow> int \<Rightarrow> 'a \<Rightarrow> 'a tracker \<Rightarrow> 'a tracker" where
  "assign cap now v s = flush_jobs cap now s (s\<lparr>source := v\<rparr>)"

text \<open>\<open>undo(); await nextTick()\<close> and \<open>redo(); await nextTick()\<close>.\<close>

definition undo_settled :: "enat \<Rightarrow> int \<Rightarrow> 'a tracker \<Rightarrow> 'a tracker" where
  "undo_settled cap now s = undo_tick (flush_jobs cap now s (undo now s))"

definition redo_settled :: "enat \<Rightarrow> int \<Rightarrow> 'a tracker \<Rightarrow> 'a tracker" where
  "redo_settled cap now s = redo_tick (flush_jobs cap now s (redo now s))"

text \<open>
  A change of the resolved capacity from \<open>old\<close> to \<open>new\<close> that Vue observes, then
  \<open>await nextTick()\<close>: the capacity is a ref, a computed or a getter that reads reactive
  state, which the effect read at its last run, so the effect runs again.
\<close>

definition set_capacity :: "enat \<Rightarrow> enat \<Rightarrow> 'a tracker \<Rightarrow> 'a tracker" where
  "set_capacity old new s = (if new = old then s else run_effect new s)"

text \<open>
  What a caller can do between two ticks, with the time at which it is done, and a run
  of such events on the pair of the resolved capacity and the tracker. \<open>Capacity\<close> is a
  change of the capacity that Vue observes. \<open>PlainCapacity\<close> is a change that it does
  not: the capacity is a getter over a plain variable, \<open>() => n\<close>, and \<open>n\<close> is assigned.
  Nothing runs then; the callbacks resolve the new capacity when they next run.
\<close>

datatype 'a event = Assign 'a int | Undo int | Redo int | Capacity enat | PlainCapacity enat

fun step :: "enat \<times> 'a tracker \<Rightarrow> 'a event \<Rightarrow> enat \<times> 'a tracker" where
  "step (cap, s) (Assign v now) = (cap, assign cap now v s)"
| "step (cap, s) (Undo now) = (cap, undo_settled cap now s)"
| "step (cap, s) (Redo now) = (cap, redo_settled cap now s)"
| "step (cap, s) (Capacity new) = (new, set_capacity cap new s)"
| "step (cap, s) (PlainCapacity new) = (new, s)"

definition run :: "'a event list \<Rightarrow> enat \<times> 'a tracker \<Rightarrow> enat \<times> 'a tracker" where
  "run es st = foldl step st es"

text \<open>The fresh tracker together with its capacity.\<close>

definition fresh :: "'a \<Rightarrow> enat \<Rightarrow> int \<Rightarrow> enat \<times> 'a tracker" where
  "fresh v cap now = (cap, useRefHistory v cap now)"

text \<open>The states at the ticks of a run, the first one included.\<close>

fun settling_points :: "'a event list \<Rightarrow> enat \<times> 'a tracker \<Rightarrow> (enat \<times> 'a tracker) list" where
  "settling_points [] st = [st]"
| "settling_points (e # es) st = st # settling_points es (step st e)"

subsection \<open>Predicates on settled states and on runs\<close>

text \<open>Neither \<open>undo\<close> nor \<open>redo\<close> is under way.\<close>

definition idle :: "'a tracker \<Rightarrow> bool" where
  "idle s \<longleftrightarrow> \<not> doingUndo s \<and> \<not> doingRedo s"






subsection \<open>The values of the cell over time\<close>

text \<open>
  The past values oldest first, then the cell, then the undone values newest first:
  \<open>undo\<close> and \<open>redo\<close> move the cell along this list without changing it.
\<close>

definition timeline :: "'a tracker \<Rightarrow> 'a list" where
  "timeline s = rev (map val (history s)) @ source s # map val (future s)"

subsection \<open>Example runs\<close>

text \<open>A sequence of assignments, each with the time of its tick.\<close>

definition assignments :: "('a \<times> int) list \<Rightarrow> 'a event list" where
  "assignments ws = map (\<lambda>(v, now). Assign v now) ws"

text \<open>
  The cell starts at 0 with capacity 4 and is set to 1, 2 and 3; then \<open>undo()\<close>; then
  \<open>redo()\<close>.
\<close>

definition scenario_set :: "enat \<times> int tracker" where
  "scenario_set = run [Assign 1 10, Assign 2 20, Assign 3 30] (fresh 0 4 0)"

definition scenario_undo :: "enat \<times> int tracker" where
  "scenario_undo = step scenario_set (Undo 40)"

definition scenario_redo :: "enat \<times> int tracker" where
  "scenario_redo = step scenario_undo (Redo 50)"

text \<open>The tracker of a cell that started at 0 and was set to 1 once.\<close>

definition one_record :: "int tracker" where
  "one_record = snd (run [Assign 1 5] (fresh 0 4 0))"


section \<open>Properties\<close>

subsection \<open>The callbacks one by one\<close>

lemma capacity_effect_within:
  "enat (length (history s)) \<le> cap \<Longrightarrow> capacity_effect cap s = s"
  by (simp add: capacity_effect_def)

lemma capacity_effect_history:
  "history (capacity_effect cap s) = slice0 cap (history s)"
  by (cases cap) (auto simp: capacity_effect_def slice0_def)

lemma capacity_effect_bound:
  "enat (length (history (capacity_effect cap s))) \<le> cap"
  by (cases cap) (auto simp: capacity_effect_def slice0_def)

lemma capacity_effect_fields:
  "source (capacity_effect cap s) = source s"
  "future (capacity_effect cap s) = future s"
  "doingUndo (capacity_effect cap s) = doingUndo s"
  "doingRedo (capacity_effect cap s) = doingRedo s"
  "lastChanged (capacity_effect cap s) = lastChanged s"
  by (simp_all add: capacity_effect_def)

lemma run_effect_within:
  "effectTracksHistory s \<Longrightarrow> enat (length (history s)) \<le> cap \<Longrightarrow> run_effect cap s = s"
  by (simp add: run_effect_def capacity_effect_within)

lemma run_effect_bound:
  "enat (length (history (run_effect cap s))) \<le> cap"
  by (simp add: run_effect_def capacity_effect_bound)

lemma run_effect_fields:
  "source (run_effect cap s) = source s"
  "future (run_effect cap s) = future s"
  "doingUndo (run_effect cap s) = doingUndo s"
  "doingRedo (run_effect cap s) = doingRedo s"
  "lastChanged (run_effect cap s) = lastChanged s"
  "history (run_effect cap s) = history (capacity_effect cap s)"
  by (simp_all add: run_effect_def capacity_effect_fields)

lemma watch_handler_suppressed:
  "doingUndo s \<or> doingRedo s \<Longrightarrow> watch_handler cap now newVal oldValue s = s"
  by (simp add: watch_handler_def)

lemma watch_handler_external:
  assumes "\<not> doingUndo s" and "\<not> doingRedo s"
  shows "watch_handler cap now newVal oldValue s =
     (if cap = 0 then s\<lparr>future := []\<rparr>
      else s\<lparr>future := [],
             history := \<lparr>val = oldValue, timestamp = lastChanged s\<rparr> #
                (if cap = enat (length (history s)) then butlast (history s) else history s),
             lastChanged := now\<rparr>)"
  using assms by (simp add: watch_handler_def clone_def Let_def)


lemma flush_jobs_within:
  assumes "enat (length (history s1)) \<le> cap"
    and "s1 = (if source s \<noteq> source prev
               then watch_handler cap now (source s) (source prev) s else s)"
  shows "flush_jobs cap now prev s = s1"
proof -
  have "flush_jobs cap now prev s =
      (if effectTracksHistory s1 \<and> history s1 \<noteq> history prev
       then run_effect cap s1 else s1)"
    unfolding flush_jobs_def Let_def assms(2) ..
  with assms(1) show ?thesis
    by (simp add: run_effect_within)
qed

lemma pushed_within:
  assumes "enat (length h) \<le> cap" and "cap \<noteq> 0"
  shows "enat (length (r # (if cap = enat (length h) then butlast h else h))) \<le> cap"
proof (cases "cap = enat (length h)")
  case True
  with assms(2) have "h \<noteq> []" by (auto simp: zero_enat_def)
  with True show ?thesis by simp
next
  case False
  with assms(1) have "enat (length h) < cap" by simp
  with False show ?thesis by (cases cap) auto
qed

lemma assign_changed:
  assumes "\<not> doingUndo s" and "\<not> doingRedo s" and "v \<noteq> source s"
    and "enat (length (history s)) \<le> cap"
  shows "assign cap now v s =
     (if cap = 0 then s\<lparr>source := v, future := []\<rparr>
      else s\<lparr>source := v, future := [],
             history := \<lparr>val = source s, timestamp = lastChanged s\<rparr> #
                (if cap = enat (length (history s)) then butlast (history s) else history s),
             lastChanged := now\<rparr>)"
  unfolding assign_def
proof (rule flush_jobs_within)
  show "enat (length (history (if cap = 0 then s\<lparr>source := v, future := []\<rparr>
      else s\<lparr>source := v, future := [],
             history := \<lparr>val = source s, timestamp = lastChanged s\<rparr> #
                (if cap = enat (length (history s)) then butlast (history s) else history s),
             lastChanged := now\<rparr>))) \<le> cap"
    using pushed_within [OF assms(4)] assms(4) by auto
  show "(if cap = 0 then s\<lparr>source := v, future := []\<rparr>
      else s\<lparr>source := v, future := [],
             history := \<lparr>val = source s, timestamp = lastChanged s\<rparr> #
                (if cap = enat (length (history s)) then butlast (history s) else history s),
             lastChanged := now\<rparr>) =
     (if source (s\<lparr>source := v\<rparr>) \<noteq> source s
      then watch_handler cap now (source (s\<lparr>source := v\<rparr>)) (source s) (s\<lparr>source := v\<rparr>)
      else s\<lparr>source := v\<rparr>)"
    using assms(1,2,3) by (simp add: watch_handler_external)
qed

lemma undo_Nil: "history s = [] \<Longrightarrow> undo now s = s\<lparr>doingUndo := True\<rparr>"
  by (simp add: undo_def)

lemma undo_Cons:
  "history s = h # hs \<Longrightarrow>
   undo now s = s\<lparr>doingUndo := True, history := hs,
                   future := \<lparr>val = source s, timestamp = now\<rparr> # future s,
                   source := val h\<rparr>"
  by (simp add: undo_def clone_def)

lemma redo_Nil: "future s = [] \<Longrightarrow> redo now s = s\<lparr>doingRedo := True\<rparr>"
  by (simp add: redo_def)

lemma redo_Cons:
  "future s = f # fs \<Longrightarrow>
   redo now s = s\<lparr>doingRedo := True, future := fs,
                   history := \<lparr>val = source s, timestamp = now\<rparr> # history s,
                   source := val f\<rparr>"
  by (simp add: redo_def clone_def)

lemma undo_settled_Nil:
  "history s = [] \<Longrightarrow> undo_settled cap now s = s\<lparr>doingUndo := False\<rparr>"
  by (simp add: undo_settled_def undo_Nil flush_jobs_def undo_tick_def)

lemma redo_settled_Nil:
  "future s = [] \<Longrightarrow> redo_settled cap now s = s\<lparr>doingRedo := False\<rparr>"
  by (simp add: redo_settled_def redo_Nil flush_jobs_def redo_tick_def)

lemma undo_settled_Cons:
  assumes "history s = h # hs"
  shows "undo_settled cap now s =
     undo_tick (if effectTracksHistory s then run_effect cap (undo now s) else undo now s)"
proof -
  have "doingUndo (undo now s)" and "history (undo now s) \<noteq> history s"
    and "effectTracksHistory (undo now s) = effectTracksHistory s"
    using assms by (simp_all add: undo_Cons)
  then have "flush_jobs cap now s (undo now s) =
      (if effectTracksHistory s then run_effect cap (undo now s) else undo now s)"
    by (simp add: flush_jobs_def watch_handler_suppressed)
  then show ?thesis by (simp add: undo_settled_def)
qed

lemma redo_settled_Cons:
  assumes "future s = f # fs"
  shows "redo_settled cap now s =
     redo_tick (if effectTracksHistory s then run_effect cap (redo now s) else redo now s)"
proof -
  have "doingRedo (redo now s)" and "history (redo now s) \<noteq> history s"
    and "effectTracksHistory (redo now s) = effectTracksHistory s"
    using assms by (simp_all add: redo_Cons)
  then have "flush_jobs cap now s (redo now s) =
      (if effectTracksHistory s then run_effect cap (redo now s) else redo now s)"
    by (simp add: flush_jobs_def watch_handler_suppressed)
  then show ?thesis by (simp add: redo_settled_def)
qed

lemma run_Nil: "run [] st = st"
  by (simp add: run_def)

lemma run_Cons: "run (e # es) st = run es (step st e)"
  by (simp add: run_def)

lemma run_snoc: "run (es @ [e]) st = step (run es st) e"
  by (simp add: run_def)

lemma settling_points_not_Nil: "settling_points es st \<noteq> []"
  by (cases es) simp_all

lemma last_settling_points: "last (settling_points es st) = run es st"
  by (induction es arbitrary: st) (simp_all add: run_Nil run_Cons settling_points_not_Nil)

lemma flush_jobs_flags:
  "doingUndo (flush_jobs cap now prev s) = doingUndo s"
  "doingRedo (flush_jobs cap now prev s) = doingRedo s"
  by (simp_all add: flush_jobs_def Let_def watch_handler_def run_effect_fields)

lemma idle_fresh: "idle (snd (fresh v cap now))"
  by (simp add: idle_def fresh_def useRefHistory_def run_effect_fields)

lemma idle_step: "idle (snd st) \<Longrightarrow> idle (snd (step st e))"
proof (cases st)
  case (Pair cap s)
  assume "idle (snd st)"
  with Pair have u: "\<not> doingUndo s" and r: "\<not> doingRedo s"
    by (simp_all add: idle_def)
  show ?thesis
  proof (cases e)
    case (Assign v now)
    with Pair u r show ?thesis by (simp add: idle_def assign_def flush_jobs_flags)
  next
    case (Undo now)
    with Pair u r show ?thesis
      by (simp add: idle_def undo_settled_def undo_tick_def flush_jobs_flags
          undo_def Let_def split: list.split)
  next
    case (Redo now)
    with Pair u r show ?thesis
      by (simp add: idle_def redo_settled_def redo_tick_def flush_jobs_flags
          redo_def Let_def split: list.split)
  next
    case (Capacity new)
    with Pair u r show ?thesis by (simp add: idle_def set_capacity_def run_effect_fields)
  next
    case (PlainCapacity new)
    with Pair u r show ?thesis by (simp add: idle_def)
  qed
qed

lemma idle_run: "idle (snd st) \<Longrightarrow> idle (snd (run es st))"
  by (induction es rule: rev_induct) (simp_all add: run_Nil run_snoc idle_step)

subsection \<open>Runs of assignments\<close>

lemma mutations_invariant:
  assumes "distinct_adj (v0 # map fst ws)"
  shows "source (snd (run (assignments ws) (fresh v0 cap t0))) = last (v0 # map fst ws)
       \<and> fst (run (assignments ws) (fresh v0 cap t0)) = cap
       \<and> enat (length (history (snd (run (assignments ws) (fresh v0 cap t0))))) =
           min (enat (length ws)) cap"
  using assms
proof (induction ws rule: rev_induct)
  case Nil
  show ?case
    by (simp add: assignments_def run_Nil fresh_def useRefHistory_def run_effect_def
        capacity_effect_def zero_enat_def [symmetric])
next
  case (snoc w ws)
  obtain v now where w: "w = (v, now)" by (cases w)
  let ?st = "run (assignments ws) (fresh v0 cap t0)"
  from snoc.prems have d: "distinct_adj (v0 # map fst ws)"
    and ne: "last (v0 # map fst ws) \<noteq> v"
    using w by (auto simp: distinct_adj_append_iff dest: distinct_adj_appendD1
        simp flip: append_Cons)
  from snoc.IH [OF d] have src: "source (snd ?st) = last (v0 # map fst ws)"
    and cap: "fst ?st = cap"
    and len: "enat (length (history (snd ?st))) = min (enat (length ws)) cap"
    by simp_all
  have "idle (snd ?st)" by (rule idle_run [OF idle_fresh])
  then have u: "\<not> doingUndo (snd ?st)" and r: "\<not> doingRedo (snd ?st)"
    by (simp_all add: idle_def)
  have b: "enat (length (history (snd ?st))) \<le> cap"
    unfolding len by simp
  have st: "?st = (cap, snd ?st)" using cap by (cases ?st) simp
  have run: "run (assignments (ws @ [w])) (fresh v0 cap t0) = (cap, assign cap now v (snd ?st))"
    using w st by (simp add: assignments_def run_snoc) (metis step.simps(1))
  have v: "v \<noteq> source (snd ?st)" using ne src by simp
  have hist: "history (assign cap now v (snd ?st)) =
      (if cap = 0 then history (snd ?st)
       else \<lparr>val = source (snd ?st), timestamp = lastChanged (snd ?st)\<rparr> #
         (if cap = enat (length (history (snd ?st)))
          then butlast (history (snd ?st)) else history (snd ?st)))"
    by (simp add: assign_changed [OF u r v b])
  have "enat (length (history (assign cap now v (snd ?st)))) = min (enat (Suc (length ws))) cap"
  proof (cases "cap = 0")
    case True
    with len show ?thesis unfolding hist by simp
  next
    case False
    show ?thesis
    proof (cases "cap = enat (length (history (snd ?st)))")
      case True
      with False have "history (snd ?st) \<noteq> []" by (auto simp: zero_enat_def)
      with True False len show ?thesis unfolding hist
        by (cases cap) (auto simp: min_def zero_enat_def split: if_splits)
    next
      case ne: False
      with b have "enat (length (history (snd ?st))) < cap" by simp
      with False ne len show ?thesis unfolding hist
        by (cases cap) (auto simp: min_def zero_enat_def split: if_splits)
    qed
  qed
  moreover have "source (assign cap now v (snd ?st)) = v"
    by (simp add: assign_changed [OF u r v b])
  ultimately show ?case using run w by simp
qed

text \<open>
  Claim C1. On a fresh tracker with a fixed capacity, let a sequence of assignments be
  made, each changing the value of the cell and each followed by a tick. After the first
  \<open>n\<close> of them the history has \<open>min n capacity\<close> records.
\<close>

theorem history_length_after_mutations:
  assumes "distinct_adj (v0 # map fst ws)" and "n \<le> length ws"
  shows "enat (length (history (snd (run (assignments (take n ws)) (fresh v0 cap t0))))) =
         min (enat n) cap"
proof -
  have "distinct_adj ((v0 # map fst (take n ws)) @ map fst (drop n ws))"
    using assms(1) by (simp flip: map_append)
  then have "distinct_adj (v0 # map fst (take n ws))"
    by (rule distinct_adj_appendD1)
  from mutations_invariant [OF this, of cap t0] assms(2) show ?thesis
    by simp
qed

theorem history_length_after_mutations_witness:
  "distinct_adj (0 # map fst [(1::int, 10), (2, 20), (1, 30)])
   \<and> (3::nat) \<le> length [(1::int, 10::int), (2, 20), (1, 30)]
   \<and> enat (length (history (snd (run (assignments (take 3 [(1::int, 10), (2, 20), (1, 30)]))
          (fresh 0 2 0))))) = min (enat 3) 2"
  using history_length_after_mutations [of 0 "[(1::int, 10), (2, 20), (1, 30)]" 3 2 0]
  by simp

subsection \<open>The scenario of the specification\<close>

lemmas tracker_defs = watch_handler_def undo_def redo_def undo_tick_def redo_tick_def
  capacity_effect_def run_effect_def useRefHistory_def flush_jobs_def assign_def undo_settled_def
  redo_settled_def set_capacity_def clone_def slice0_def Let_def run_def fresh_def
  numeral_eq_enat zero_enat_def

lemma scenario_set_eq:
  "scenario_set = (4, \<lparr>source = 3,
     history = [\<lparr>val = 2, timestamp = 20\<rparr>, \<lparr>val = 1, timestamp = 10\<rparr>,
                \<lparr>val = 0, timestamp = 0\<rparr>],
     future = [], doingUndo = False, doingRedo = False, lastChanged = 30,
     effectTracksHistory = True\<rparr>)"
  by (simp add: scenario_set_def tracker_defs)

lemma scenario_undo_eq:
  "scenario_undo = (4, \<lparr>source = 2,
     history = [\<lparr>val = 1, timestamp = 10\<rparr>, \<lparr>val = 0, timestamp = 0\<rparr>],
     future = [\<lparr>val = 3, timestamp = 40\<rparr>],
     doingUndo = False, doingRedo = False, lastChanged = 30,
     effectTracksHistory = True\<rparr>)"
  by (simp add: scenario_undo_def scenario_set_eq tracker_defs)

lemma scenario_redo_eq:
  "scenario_redo = (4, \<lparr>source = 3,
     history = [\<lparr>val = 2, timestamp = 50\<rparr>, \<lparr>val = 1, timestamp = 10\<rparr>,
                \<lparr>val = 0, timestamp = 0\<rparr>],
     future = [], doingUndo = False, doingRedo = False, lastChanged = 30,
     effectTracksHistory = True\<rparr>)"
  by (simp add: scenario_redo_def scenario_undo_eq tracker_defs)

text \<open>
  Claim C2. The cell starts at 0 with capacity 4 and is set to 1, 2, 3: the history holds
  the values 2, 1, 0 and the cell is 3. After \<open>undo()\<close> the cell is 2, the history holds
  1, 0 and the future holds 3. After \<open>redo()\<close> the cell is 3 again and history and
  future hold the values they held before the undo.
\<close>

theorem scenario_set_undo_redo:
  "map val (history (snd scenario_set)) = [2, 1, 0] \<and> source (snd scenario_set) = 3
   \<and> source (snd scenario_undo) = 2
   \<and> map val (history (snd scenario_undo)) = [1, 0]
   \<and> map val (future (snd scenario_undo)) = [3]
   \<and> source (snd scenario_redo) = 3
   \<and> map val (history (snd scenario_redo)) = map val (history (snd scenario_set))
   \<and> map val (future (snd scenario_redo)) = map val (future (snd scenario_set))"
  by (simp add: scenario_set_eq scenario_undo_eq scenario_redo_eq)

subsection \<open>External mutations\<close>

text \<open>
  Claim C3. When the handler runs for an external mutation (neither flag is set), the
  future is empty afterwards, whatever the capacity; with capacity 0 the future is
  emptied all the same and the history is left as it was. So the future is empty at the
  tick after any assignment that changes the cell.
\<close>

theorem external_mutation_clears_future:
  assumes "\<not> doingUndo s" and "\<not> doingRedo s"
  shows "future (watch_handler cap now newVal oldValue s) = []
       \<and> future (watch_handler 0 now newVal oldValue s) = []
       \<and> history (watch_handler 0 now newVal oldValue s) = history s
       \<and> (v \<noteq> source s \<longrightarrow> future (assign cap now v s) = [])"
proof -
  have "future (watch_handler c now x y t) = []" if "\<not> doingUndo t" "\<not> doingRedo t"
    for c x y and t :: "'a tracker"
    using that by (simp add: watch_handler_external)
  note cleared = this
  have "future (assign cap now v s) = []" if "v \<noteq> source s"
  proof -
    have "future (flush_jobs cap now s (s\<lparr>source := v\<rparr>)) =
        future (watch_handler cap now v (source s) (s\<lparr>source := v\<rparr>))"
      using that by (simp add: flush_jobs_def Let_def run_effect_fields)
    with assms show ?thesis by (simp add: assign_def cleared)
  qed
  with assms show ?thesis
    by (simp add: cleared) (simp add: watch_handler_external)
qed

theorem external_mutation_clears_future_witness:
  "\<not> doingUndo (snd scenario_undo) \<and> \<not> doingRedo (snd scenario_undo)
   \<and> future (snd scenario_undo) = [\<lparr>val = 3, timestamp = 40\<rparr>]
   \<and> future (watch_handler 4 60 7 2 (snd scenario_undo)) = []
   \<and> future (watch_handler 0 60 7 2 (snd scenario_undo)) = []
   \<and> history (watch_handler 0 60 7 2 (snd scenario_undo)) = history (snd scenario_undo)
   \<and> 7 \<noteq> source (snd scenario_undo)
   \<and> future (assign 4 60 7 (snd scenario_undo)) = []"
  using external_mutation_clears_future [of "snd scenario_undo" 4 60 7 2 7]
  by (simp add: scenario_undo_eq)

lemma one_record_eq:
  "one_record = \<lparr>source = 1, history = [\<lparr>val = 0, timestamp = 0\<rparr>], future = [],
     doingUndo = False, doingRedo = False, lastChanged = 5,
     effectTracksHistory = True\<rparr>"
  by (simp add: one_record_def tracker_defs)

text \<open>
  Claim C10, at capacity 0: the history, one record long, exceeds the capacity, and the
  handler returns at line 50 without a new record.
\<close>

theorem handler_at_capacity_zero_counterexample:
  "\<not> doingUndo one_record \<and> \<not> doingRedo one_record
   \<and> 0 < enat (length (history one_record))
   \<and> history (watch_handler 0 9 2 1 one_record) = history one_record
   \<and> length (history (watch_handler 0 9 2 1 one_record)) \<noteq> Suc (length (history one_record))"
  by (simp add: one_record_eq watch_handler_external zero_enat_def)

text \<open>
  Claim C10, for a capacity other than 0. The handler puts the record of the old value
  in front of the history, and drops the last record only when the length of the
  history equals the capacity. Where the history is already longer than the capacity
  nothing is dropped and the history grows by one record.
\<close>

theorem handler_eviction_rule:
  assumes "\<not> doingUndo s" and "\<not> doingRedo s" and "cap \<noteq> 0"
  shows "history (watch_handler cap now newVal oldValue s) =
           \<lparr>val = oldValue, timestamp = lastChanged s\<rparr> #
           (if cap = enat (length (history s)) then butlast (history s) else history s)
       \<and> (cap < enat (length (history s)) \<longrightarrow>
            history (watch_handler cap now newVal oldValue s) =
              \<lparr>val = oldValue, timestamp = lastChanged s\<rparr> # history s
          \<and> length (history (watch_handler cap now newVal oldValue s)) =
              Suc (length (history s)))"
  using assms by (auto simp add: watch_handler_external)

theorem handler_eviction_rule_witness:
  "\<not> doingUndo (snd scenario_set) \<and> \<not> doingRedo (snd scenario_set) \<and> (1::enat) \<noteq> 0
   \<and> history (watch_handler 1 60 7 3 (snd scenario_set)) =
       \<lparr>val = 3, timestamp = 30\<rparr> # history (snd scenario_set)
   \<and> (1::enat) < enat (length (history (snd scenario_set)))
   \<and> length (history (watch_handler 1 60 7 3 (snd scenario_set))) = 4
   \<and> history (watch_handler 3 60 7 3 (snd scenario_set)) =
       [\<lparr>val = 3, timestamp = 30\<rparr>, \<lparr>val = 2, timestamp = 20\<rparr>, \<lparr>val = 1, timestamp = 10\<rparr>]"
  using handler_eviction_rule [of "snd scenario_set" 1 60 7 3]
    handler_eviction_rule [of "snd scenario_set" 3 60 7 3]
  by (simp add: scenario_set_eq numeral_eq_enat one_enat_def zero_enat_def)

text \<open>
  Claim C7. The record of the old value is stamped \<open>lastChanged\<close>, which only the
  handler sets, and only when it adds a record. Here the cell is set to 1 at time 10
  and \<open>undo()\<close> brings 0 back at time 20; \<open>lastChanged\<close> is still 10. Setting the cell
  to 5 at time 30 then records the value 0 with the time 10, the time at which 1 became
  the value of the cell.
\<close>

theorem record_after_undo_keeps_old_timestamp:
  "snd (run [Assign 1 10, Undo 20] (fresh (0::int) \<infinity> 0)) =
     \<lparr>source = 0, history = [], future = [\<lparr>val = 1, timestamp = 20\<rparr>],
      doingUndo = False, doingRedo = False, lastChanged = 10,
      effectTracksHistory = True\<rparr>
   \<and> history (snd (run [Assign 1 10, Undo 20, Assign 5 30] (fresh (0::int) \<infinity> 0))) =
     [\<lparr>val = 0, timestamp = 10\<rparr>]"
  by (simp add: tracker_defs)

subsection \<open>Undo and redo\<close>

text \<open>
  Claim C8. \<open>undo()\<close> on an empty history and \<open>redo()\<close> on an empty future change
  nothing but their flag, which is cleared again at the tick: cell, history and future
  are as before.
\<close>

theorem undo_redo_on_empty_is_noop:
  "(history s = [] \<longrightarrow>
      undo now s = s\<lparr>doingUndo := True\<rparr> \<and> undo_settled cap now s = s\<lparr>doingUndo := False\<rparr>)
   \<and> (future s = [] \<longrightarrow>
      redo now s = s\<lparr>doingRedo := True\<rparr> \<and> redo_settled cap now s = s\<lparr>doingRedo := False\<rparr>)"
  by (simp add: undo_Nil redo_Nil undo_settled_Nil redo_settled_Nil)

theorem undo_redo_on_empty_is_noop_witness:
  "history (useRefHistory (0::int) 4 0) = []
   \<and> undo 10 (useRefHistory (0::int) 4 0) = (useRefHistory 0 4 0)\<lparr>doingUndo := True\<rparr>
   \<and> undo_settled 4 10 (useRefHistory (0::int) 4 0) = useRefHistory 0 4 0
   \<and> future (useRefHistory (0::int) 4 0) = []
   \<and> redo 10 (useRefHistory (0::int) 4 0) = (useRefHistory 0 4 0)\<lparr>doingRedo := True\<rparr>
   \<and> redo_settled 4 10 (useRefHistory (0::int) 4 0) = useRefHistory 0 4 0"
  using undo_redo_on_empty_is_noop [of "useRefHistory (0::int) 4 0" 10 4]
  by (simp add: useRefHistory_def run_effect_def capacity_effect_def)

text \<open>
  Claim C4. With a history that is not empty, \<open>undo()\<close> followed by \<open>redo()\<close> gives back
  the cell, the values of the history in their order (all but the newest record
  unchanged, the newest with the time of the redo) and the future; this holds when the
  two calls follow each other at once, and, for a history within the capacity, when each
  is followed by a tick.
\<close>

theorem undo_then_redo_roundtrip:
  assumes "history s \<noteq> []"
  shows "source (redo t2 (undo t1 s)) = source s
       \<and> map val (history (redo t2 (undo t1 s))) = map val (history s)
       \<and> tl (history (redo t2 (undo t1 s))) = tl (history s)
       \<and> future (redo t2 (undo t1 s)) = future s
       \<and> (enat (length (history s)) \<le> cap \<longrightarrow>
            source (redo_settled cap t2 (undo_settled cap t1 s)) = source s
          \<and> map val (history (redo_settled cap t2 (undo_settled cap t1 s))) = map val (history s)
          \<and> future (redo_settled cap t2 (undo_settled cap t1 s)) = future s
          \<and> \<not> doingUndo (redo_settled cap t2 (undo_settled cap t1 s))
          \<and> \<not> doingRedo (redo_settled cap t2 (undo_settled cap t1 s)))"
proof -
  from assms obtain h hs where h: "history s = h # hs" by (cases "history s") auto
  let ?u = "undo t1 s"
  have u: "?u = s\<lparr>doingUndo := True, history := hs,
                   future := \<lparr>val = source s, timestamp = t1\<rparr> # future s,
                   source := val h\<rparr>"
    by (rule undo_Cons [OF h])
  have sync: "redo t2 ?u = s\<lparr>doingUndo := True, doingRedo := True, future := future s,
                   history := \<lparr>val = val h, timestamp = t2\<rparr> # hs,
                   source := source s\<rparr>"
    by (simp add: u redo_def clone_def)
  have settled: "redo_settled cap t2 (undo_settled cap t1 s) =
      s\<lparr>doingUndo := False, doingRedo := False, future := future s,
        history := \<lparr>val = val h, timestamp = t2\<rparr> # hs, source := source s\<rparr>"
    if b: "enat (length (history s)) \<le> cap"
  proof -
    from b h have "enat (length hs) \<le> cap"
      by (cases cap) auto
    then have us: "undo_settled cap t1 s = s\<lparr>doingUndo := False, history := hs,
                   future := \<lparr>val = source s, timestamp = t1\<rparr> # future s,
                   source := val h\<rparr>"
      by (cases "effectTracksHistory s")
        (simp_all add: undo_settled_Cons [OF h] u run_effect_within undo_tick_def)
    let ?u = "undo_settled cap t1 s"
    have f: "future ?u = \<lparr>val = source s, timestamp = t1\<rparr> # future s"
      by (simp add: us)
    have rd: "redo t2 ?u =
        s\<lparr>doingUndo := False, doingRedo := True, future := future s,
          history := \<lparr>val = val h, timestamp = t2\<rparr> # hs, source := source s\<rparr>"
      by (simp add: us redo_def clone_def)
    have fits: "enat (length (history (redo t2 ?u))) \<le> cap"
      using b h by (simp add: rd)
    have tracks: "effectTracksHistory (redo t2 ?u) = effectTracksHistory ?u"
      unfolding rd by (simp add: us)
    have "(if effectTracksHistory ?u then run_effect cap (redo t2 ?u) else redo t2 ?u) =
        redo t2 ?u"
    proof (cases "effectTracksHistory ?u")
      case True
      with tracks have "effectTracksHistory (redo t2 ?u)" by (simp only:)
      from run_effect_within [OF this fits] True show ?thesis by (simp only: if_True)
    next
      case False
      then show ?thesis by (simp only: if_False)
    qed
    then have "redo_settled cap t2 ?u = redo_tick (redo t2 ?u)"
      by (simp only: redo_settled_Cons [OF f])
    then show ?thesis
      by (simp add: rd redo_tick_def)
  qed
  show ?thesis
    using h by (simp add: sync settled)
qed

theorem undo_then_redo_roundtrip_witness:
  "history (snd scenario_set) \<noteq> []
   \<and> source (redo 50 (undo 40 (snd scenario_set))) = source (snd scenario_set)
   \<and> map val (history (redo 50 (undo 40 (snd scenario_set)))) = [2, 1, 0]
   \<and> future (redo 50 (undo 40 (snd scenario_set))) = []
   \<and> enat (length (history (snd scenario_set))) \<le> 4
   \<and> source (redo_settled 4 50 (undo_settled 4 40 (snd scenario_set))) = 3
   \<and> map val (history (redo_settled 4 50 (undo_settled 4 40 (snd scenario_set)))) = [2, 1, 0]
   \<and> future (redo_settled 4 50 (undo_settled 4 40 (snd scenario_set))) = []"
  using undo_then_redo_roundtrip [of "snd scenario_set" 50 40 4]
  by (simp add: scenario_set_eq numeral_eq_enat)

subsection \<open>Changes of the capacity\<close>

text \<open>
  Claim C5, as stated: the capacity is a getter over a plain variable, which is set from
  4 to 2 while the history holds three records. Vue runs nothing, and at the next tick
  the history still holds the three records.
\<close>

theorem unobserved_capacity_change_counterexample:
  "fst scenario_set = 4 \<and> fst (step scenario_set (PlainCapacity 2)) = 2
   \<and> history (snd (step scenario_set (PlainCapacity 2))) = history (snd scenario_set)
   \<and> length (history (snd (step scenario_set (PlainCapacity 2)))) = 3"
  by (simp add: scenario_set_eq)

text \<open>
  Claim C5, for a change of the capacity that Vue observes. When such a change sets the
  capacity to a number below the length of the history, the effect runs at the next
  tick and cuts the history to its first (newest) records, as many as the capacity;
  neither the cell nor the future is touched. A later observed change to a larger
  capacity leaves the cut history as it is.
\<close>

theorem observed_capacity_shrink_truncates:
  assumes "enat n < enat (length (history s))" and "old \<noteq> enat n"
  shows "fst (step (old, s) (Capacity (enat n))) = enat n
       \<and> history (snd (step (old, s) (Capacity (enat n)))) = take n (history s)
       \<and> source (snd (step (old, s) (Capacity (enat n)))) = source s
       \<and> future (snd (step (old, s) (Capacity (enat n)))) = future s
       \<and> (enat n \<le> larger \<longrightarrow>
            history (snd (step (step (old, s) (Capacity (enat n))) (Capacity larger))) =
            take n (history s))"
proof -
  let ?t = "s\<lparr>history := take n (history s), effectTracksHistory := False\<rparr>"
  have shrink: "step (old, s) (Capacity (enat n)) = (enat n, ?t)"
    using assms by (simp add: set_capacity_def run_effect_def capacity_effect_def slice0_def)
  have "history (run_effect larger ?t) = take n (history s)" if "enat n \<le> larger"
  proof -
    have "enat (length (history ?t)) \<le> larger"
      using that assms(1) by (cases larger) (auto simp: min_def)
    then show ?thesis
      by (simp add: run_effect_fields capacity_effect_within)
  qed
  then have later: "history (set_capacity (enat n) larger ?t) = take n (history s)"
    if "enat n \<le> larger"
    using that by (simp add: set_capacity_def)
  show ?thesis
    unfolding shrink by (simp add: later)
qed

theorem observed_capacity_shrink_truncates_witness:
  "enat 2 < enat (length (history (snd scenario_set))) \<and> (4::enat) \<noteq> enat 2
   \<and> fst (step (4, snd scenario_set) (Capacity (enat 2))) = enat 2
   \<and> history (snd (step (4, snd scenario_set) (Capacity (enat 2)))) =
       [\<lparr>val = 2, timestamp = 20\<rparr>, \<lparr>val = 1, timestamp = 10\<rparr>]
   \<and> source (snd (step (4, snd scenario_set) (Capacity (enat 2)))) = 3
   \<and> future (snd (step (4, snd scenario_set) (Capacity (enat 2)))) = []
   \<and> enat 2 \<le> \<infinity>
   \<and> history (snd (step (step (4, snd scenario_set) (Capacity (enat 2))) (Capacity \<infinity>))) =
       [\<lparr>val = 2, timestamp = 20\<rparr>, \<lparr>val = 1, timestamp = 10\<rparr>]"
  using observed_capacity_shrink_truncates [of 2 "snd scenario_set" 4 \<infinity>]
  by (simp add: scenario_set_eq numeral_eq_enat)

subsection \<open>The history and the capacity\<close>













subsection \<open>The cell and the values in the history\<close>


text \<open>
  Neighbours in the list of values over time differ: an assignment that runs the
  handler changes the value, and undo and redo only move the cell along the list. The
  one step that can break this is an assignment at capacity 0 while the history holds a
  record: the handler returns at line 50 and the cell may take the value of the newest
  record.
\<close>

lemma timeline_flags [simp]:
  "timeline (s\<lparr>doingUndo := b\<rparr>) = timeline s"
  "timeline (s\<lparr>doingRedo := b\<rparr>) = timeline s"
  "timeline (s\<lparr>effectTracksHistory := b\<rparr>) = timeline s"
  "timeline (s\<lparr>lastChanged := t\<rparr>) = timeline s"
  by (simp_all add: timeline_def)















end
